theory Spec2Isabelle
  imports Main "HOL-Library.AList" "HOL-Library.Word"
begin

section \<open>The data of sync.go\<close>

text \<open>
  A value of Go's \<^verbatim>\<open>interface{}\<close> as the JSON decoder produces it. The replay
  filter only asks whether such a value is a string (\<^verbatim>\<open>m.(string)\<close>).
\<close>

datatype iface =
    INil
  | IBool bool
  | INumber int
  | IString string
  | IArray "iface list"
  | IObject "(string \<times> iface) list"

text \<open>
  Modelled from the spec: the declaration of \<^verbatim>\<open>Event\<close> is not part of sync.go. The
  fields are the ones sync.go reads and writes: \<^verbatim>\<open>e.Type\<close>, \<^verbatim>\<open>e.StateKey\<close> (compared
  with the string \<^verbatim>\<open>s.UserID\<close>), \<^verbatim>\<open>e.Content["membership"]\<close> and \<^verbatim>\<open>event.RoomID\<close>;
  the sender is named by the data model. A Go map read of a missing key (or of a nil
  map) gives the zero value, here \<open>None\<close>.
\<close>

record Event =
  Type :: string
  StateKey :: string
  Sender :: string
  RoomID :: string
  Content :: "string \<rightharpoonup> iface"

text \<open>
  Modelled from the spec: the declaration of \<^verbatim>\<open>Room\<close> is not part of sync.go. A room
  is identified by its room id and holds \<open>State\<close>, the mapping from a pair of event type
  and state key to the latest event with that pair. sync.go hands \<^verbatim>\<open>UpdateState\<close> a
  pointer, \<^verbatim>\<open>&event\<close>, so the map holds pointers to events: an address is an index
  into \<open>Vars\<close>, the \<^verbatim>\<open>Event\<close> variables the pointers of this room point to.
\<close>

type_synonym addr = nat

record Room =
  ID :: string
  State :: "string \<times> string \<rightharpoonup> addr"
  Vars :: "Event list"

text \<open>
  Modelled from the spec: \<^verbatim>\<open>NewRoom\<close> is not part of sync.go. A room is created on
  first reference, with no state.
\<close>

definition NewRoom :: "string \<Rightarrow> Room" where
  "NewRoom roomID = \<lparr>ID = roomID, State = Map.empty, Vars = []\<rparr>"

text \<open>
  Modelled from the spec: \<^verbatim>\<open>UpdateState\<close> is not part of sync.go. It merges one state
  event, overwriting any prior entry with the same pair of type and state key. It is
  called with a pointer \<open>p\<close>; \<open>event\<close> is the event \<open>p\<close> points to at the call, from
  which the pair is read. The room keeps the pointer.
\<close>

definition UpdateState :: "Room \<Rightarrow> addr \<Rightarrow> Event \<Rightarrow> Room" where
  "UpdateState room p event =
     room\<lparr>State := (State room)((Type event, StateKey event) \<mapsto> p)\<rparr>"

text \<open>
  Modelled from the spec: the declaration of \<^verbatim>\<open>RespSync\<close> is not part of sync.go.
  sync.go reads \<^verbatim>\<open>Rooms.Join[roomID].State.Events\<close>,
  \<^verbatim>\<open>Rooms.Join[roomID].Timeline.Events\<close> and \<^verbatim>\<open>Rooms.Invite[roomID].State.Events\<close>.
  The two Go maps are lists of entries: the order of a list is the order in which
  \<^verbatim>\<open>range\<close> happens to visit the map, which the Go runtime chooses. \<^verbatim>\<open>delete\<close> is
  \<^const>\<open>AList.delete\<close>, a lookup is \<^const>\<open>map_of\<close>. A Go map has each key once:
  \<open>distinct (map fst (Join resp))\<close>.
\<close>

record JoinedRoom =
  State_Events :: "Event list"
  Timeline_Events :: "Event list"

record InvitedRoom =
  Invite_State_Events :: "Event list"

record RespSync =
  Join :: "(string \<times> JoinedRoom) list"
  Invite :: "(string \<times> InvitedRoom) list"

text \<open>
  The value a Go panic carries, as \<^verbatim>\<open>recover()\<close> returns it: \<open>PanicNil\<close> is the value
  of \<^verbatim>\<open>panic(nil)\<close>, for which \<^verbatim>\<open>recover()\<close> returns nil as it does when nothing
  panicked (the meaning of \<^verbatim>\<open>panic(nil)\<close> before Go 1.21, which a module without a
  \<^verbatim>\<open>go\<close> directive is built with); then the two run-time panics this code can raise,
  and a panic raised by a callback with its message.
\<close>

datatype panic =
    PanicNil
  | NilPointerDereference
  | AssignmentToNilMap
  | Raised string

text \<open>
  \<^verbatim>\<open>type OnEventListener func(*Event)\<close>. A callback is called with a pointer; here
  it gets the event the pointer points to at the call. It acts on the world outside the
  syncer, of type \<open>'w\<close>, and may panic after doing so. It is taken not to write to
  the event it is handed, to the response or to the syncer, and not to keep the pointer.
\<close>

type_synonym 'w OnEventListener = "Event \<Rightarrow> 'w \<Rightarrow> panic option \<times> 'w"

text \<open>
  \<^verbatim>\<open>DefaultSyncer\<close>. \<open>Rooms\<close> is a Go map that may be nil (\<open>None\<close>): the field is
  exported, and only \<^verbatim>\<open>NewDefaultSyncer\<close> allocates it. The entries of the table are
  separate \<^verbatim>\<open>Room\<close> objects. The two storer fields take no part in processing a
  response and are left to the record's extension.
\<close>

record 'w DefaultSyncer =
  UserID :: string
  Rooms :: "(string \<rightharpoonup> Room) option"
  listeners :: "string \<rightharpoonup> 'w OnEventListener list"

definition NewDefaultSyncer :: "string \<Rightarrow> 'w DefaultSyncer" where
  "NewDefaultSyncer userID =
     \<lparr>UserID = userID, Rooms = Some Map.empty, listeners = Map.empty\<rparr>"

text \<open>
  The error \<^verbatim>\<open>fmt.Errorf("ProcessResponse panicked! userID=%s since=%s panic=%s\n%s",
  s.UserID, since, r, debug.Stack())\<close>: the user id, the cursor and the recovered value
  it is formatted from (the stack trace is the runtime's).
\<close>

datatype error = ProcessResponsePanicked string string panic

text \<open>How a call ends: it returns its \<^verbatim>\<open>err\<close> result, or a panic leaves it.\<close>

datatype result = Return "error option" | Panic panic

section \<open>Registering and notifying listeners\<close>

definition OnEventType ::
  "'w DefaultSyncer \<Rightarrow> string \<Rightarrow> 'w OnEventListener \<Rightarrow> 'w DefaultSyncer" where
  "OnEventType s eventType callback =
     (let ls = (case listeners s eventType of
                  None \<Rightarrow> (listeners s)(eventType \<mapsto> [])
                | Some _ \<Rightarrow> listeners s)
      in s\<lparr>listeners := ls(eventType \<mapsto> (case ls eventType of None \<Rightarrow> [] | Some fns \<Rightarrow> fns) @ [callback])\<rparr>)"

text \<open>\<^verbatim>\<open>for _, fn := range listeners { fn(event) }\<close>: a panic ends the loop.\<close>

fun callListeners :: "'w OnEventListener list \<Rightarrow> Event \<Rightarrow> 'w \<Rightarrow> panic option \<times> 'w" where
  "callListeners [] event w = (None, w)"
| "callListeners (fn # fns) event w =
     (case fn event w of
        (Some p, w') \<Rightarrow> (Some p, w')
      | (None, w') \<Rightarrow> callListeners fns event w')"

definition notifyListeners :: "'w DefaultSyncer \<Rightarrow> Event \<Rightarrow> 'w \<Rightarrow> panic option \<times> 'w" where
  "notifyListeners s event w =
     (case listeners s (Type event) of
        None \<Rightarrow> (None, w)
      | Some fns \<Rightarrow> callListeners fns event w)"

section \<open>shouldProcessResponse\<close>

text \<open>
  \<^verbatim>\<open>delete(resp.Rooms.Join, roomID); delete(resp.Rooms.Invite, roomID)\<close>
\<close>

definition deleteRoom :: "string \<Rightarrow> RespSync \<Rightarrow> RespSync" where
  "deleteRoom roomID resp =
     resp\<lparr>Join := AList.delete roomID (Join resp),
          Invite := AList.delete roomID (Invite resp)\<rparr>"

text \<open>
  The inner loop \<^verbatim>\<open>for i := len(roomData.Timeline.Events) - 1; i >= 0; i--\<close>. The
  counter \<open>Suc i\<close> stands for the index \<open>i\<close> about to be read, \<open>0\<close> for \<open>i = -1\<close>;
  the loop starts at \<open>length events\<close>. Each \<^verbatim>\<open>continue\<close>, and the fall through both
  \<^verbatim>\<open>if\<close>s, goes on with \<open>i - 1\<close>; the \<^verbatim>\<open>break\<close> follows the two deletions.
\<close>

fun scanTimeline :: "string \<Rightarrow> string \<Rightarrow> Event list \<Rightarrow> nat \<Rightarrow> RespSync \<Rightarrow> RespSync" where
  "scanTimeline userID roomID events 0 resp = resp"
| "scanTimeline userID roomID events (Suc i) resp =
     (let e = events ! i in
      if Type e = ''m.room.member'' \<and> StateKey e = userID then
        (case Content e ''membership'' of
           Some (IString mship) \<Rightarrow>
             if mship = ''join'' then
               (case map_of (Join resp) roomID of
                  None \<Rightarrow> scanTimeline userID roomID events i resp
                | Some _ \<Rightarrow> deleteRoom roomID resp)
             else scanTimeline userID roomID events i resp
         | _ \<Rightarrow> scanTimeline userID roomID events i resp)
      else scanTimeline userID roomID events i resp)"

text \<open>
  The outer loop \<^verbatim>\<open>for roomID, roomData := range resp.Rooms.Join\<close>, over the entries
  the map has when the loop starts. The only entry the body deletes from the map it
  ranges over is the one it is visiting.
\<close>

fun scanJoinedRooms :: "string \<Rightarrow> (string \<times> JoinedRoom) list \<Rightarrow> RespSync \<Rightarrow> RespSync" where
  "scanJoinedRooms userID [] resp = resp"
| "scanJoinedRooms userID ((roomID, roomData) # rest) resp =
     scanJoinedRooms userID rest
       (scanTimeline userID roomID (Timeline_Events roomData)
          (length (Timeline_Events roomData)) resp)"

text \<open>
  \<^verbatim>\<open>resp\<close> is a pointer: \<open>None\<close> is nil, and reading \<^verbatim>\<open>resp.Rooms\<close> through it
  panics. The response comes back as the function leaves it.
\<close>

definition shouldProcessResponse ::
  "'w DefaultSyncer \<Rightarrow> RespSync option \<Rightarrow> string \<Rightarrow> panic + (bool \<times> RespSync option)" where
  "shouldProcessResponse s resp since =
     (if since = '''' then Inr (False, resp)
      else case resp of
             None \<Rightarrow> Inl NilPointerDereference
           | Some r \<Rightarrow> Inr (True, Some (scanJoinedRooms (UserID s) (Join r) r)))"

section \<open>ProcessResponse\<close>

text \<open>
  \<^verbatim>\<open>s.Rooms[roomID]\<close> read from a map that may be nil, and the write through the
  \<^verbatim>\<open>*Room\<close> that \<^verbatim>\<open>getOrCreateRoom\<close> returned, which is the table's entry for
  \<open>roomID\<close>.
\<close>

definition lookupRoom :: "'w DefaultSyncer \<Rightarrow> string \<Rightarrow> Room option" where
  "lookupRoom s roomID = (case Rooms s of None \<Rightarrow> None | Some m \<Rightarrow> m roomID)"

definition storeRoom :: "'w DefaultSyncer \<Rightarrow> string \<Rightarrow> Room \<Rightarrow> 'w DefaultSyncer" where
  "storeRoom s roomID room = s\<lparr>Rooms := map_option (\<lambda>m. m(roomID \<mapsto> room)) (Rooms s)\<rparr>"

definition getOrCreateRoom ::
  "'w DefaultSyncer \<Rightarrow> string \<Rightarrow> panic + (Room \<times> 'w DefaultSyncer)" where
  "getOrCreateRoom s roomID =
     (case lookupRoom s roomID of
        Some room \<Rightarrow> Inr (room, s)
      | None \<Rightarrow>
          (case Rooms s of
             None \<Rightarrow> Inl AssignmentToNilMap
           | Some m \<Rightarrow> Inr (NewRoom roomID, s\<lparr>Rooms := Some (m(roomID \<mapsto> NewRoom roomID))\<rparr>)))"

text \<open>
  \<^verbatim>\<open>for _, event := range roomData.State.Events\<close> (lines 63 to 67 and 75 to 79).
  The variable \<^verbatim>\<open>event\<close> of one execution of the statement is one variable: every
  iteration assigns it the next element, and \<^verbatim>\<open>&event\<close> is the same address \<open>p\<close> in
  every iteration (the meaning of \<^verbatim>\<open>range\<close> before Go 1.22, which a module without a
  \<^verbatim>\<open>go\<close> directive is built with). One iteration: assign the element and stamp the
  room id (the variable at \<open>p\<close> now holds the stamped event), hand \<^verbatim>\<open>UpdateState\<close> the
  address, notify.
\<close>

definition zeroEvent :: Event where
  "zeroEvent = \<lparr>Type = '''', StateKey = '''', Sender = '''', RoomID = '''', Content = Map.empty\<rparr>"

fun stateEventsIter ::
  "'w DefaultSyncer \<Rightarrow> string \<Rightarrow> Room \<Rightarrow> addr \<Rightarrow> Event list \<Rightarrow> 'w
     \<Rightarrow> panic option \<times> 'w DefaultSyncer \<times> 'w" where
  "stateEventsIter s roomID room p [] w = (None, s, w)"
| "stateEventsIter s roomID room p (ev # evs) w =
     (let event = ev\<lparr>RoomID := roomID\<rparr>;
          room1 = room\<lparr>Vars := (Vars room)[p := event]\<rparr>;
          room2 = UpdateState room1 p event;
          s' = storeRoom s roomID room2
      in case notifyListeners s' event w of
           (Some r, w') \<Rightarrow> (Some r, s', w')
         | (None, w') \<Rightarrow> stateEventsIter s' roomID room2 p evs w')"

text \<open>
  The whole statement: the variable is new, at the address after the room's variables so
  far and with the zero value, and the iterations run on it.
\<close>

definition stateEventsLoop ::
  "'w DefaultSyncer \<Rightarrow> string \<Rightarrow> Room \<Rightarrow> Event list \<Rightarrow> 'w \<Rightarrow> panic option \<times> 'w DefaultSyncer \<times> 'w" where
  "stateEventsLoop s roomID room evs w =
     (let p = length (Vars room);
          room0 = room\<lparr>Vars := Vars room @ [zeroEvent]\<rparr>
      in stateEventsIter (storeRoom s roomID room0) roomID room0 p evs w)"

text \<open>\<^verbatim>\<open>for _, event := range roomData.Timeline.Events\<close> (lines 68 to 71).\<close>

fun timelineEventsLoop ::
  "'w DefaultSyncer \<Rightarrow> string \<Rightarrow> Event list \<Rightarrow> 'w \<Rightarrow> panic option \<times> 'w" where
  "timelineEventsLoop s roomID [] w = (None, w)"
| "timelineEventsLoop s roomID (ev # evs) w =
     (let event = ev\<lparr>RoomID := roomID\<rparr>
      in case notifyListeners s event w of
           (Some p, w') \<Rightarrow> (Some p, w')
         | (None, w') \<Rightarrow> timelineEventsLoop s roomID evs w')"

text \<open>\<^verbatim>\<open>for roomID, roomData := range res.Rooms.Join\<close> (lines 61 to 72).\<close>

fun joinLoop ::
  "'w DefaultSyncer \<Rightarrow> (string \<times> JoinedRoom) list \<Rightarrow> 'w \<Rightarrow> panic option \<times> 'w DefaultSyncer \<times> 'w" where
  "joinLoop s [] w = (None, s, w)"
| "joinLoop s ((roomID, roomData) # rest) w =
     (case getOrCreateRoom s roomID of
        Inl p \<Rightarrow> (Some p, s, w)
      | Inr (room, s1) \<Rightarrow>
          (case stateEventsLoop s1 roomID room (State_Events roomData) w of
             (Some p, s2, w2) \<Rightarrow> (Some p, s2, w2)
           | (None, s2, w2) \<Rightarrow>
               (case timelineEventsLoop s2 roomID (Timeline_Events roomData) w2 of
                  (Some p, w3) \<Rightarrow> (Some p, s2, w3)
                | (None, w3) \<Rightarrow> joinLoop s2 rest w3)))"

text \<open>\<^verbatim>\<open>for roomID, roomData := range res.Rooms.Invite\<close> (lines 73 to 80).\<close>

fun inviteLoop ::
  "'w DefaultSyncer \<Rightarrow> (string \<times> InvitedRoom) list \<Rightarrow> 'w \<Rightarrow> panic option \<times> 'w DefaultSyncer \<times> 'w" where
  "inviteLoop s [] w = (None, s, w)"
| "inviteLoop s ((roomID, roomData) # rest) w =
     (case getOrCreateRoom s roomID of
        Inl p \<Rightarrow> (Some p, s, w)
      | Inr (room, s1) \<Rightarrow>
          (case stateEventsLoop s1 roomID room (Invite_State_Events roomData) w of
             (Some p, s2, w2) \<Rightarrow> (Some p, s2, w2)
           | (None, s2, w2) \<Rightarrow> inviteLoop s2 rest w2))"

text \<open>
  Lines 61 to 81, the part of \<^verbatim>\<open>ProcessResponse\<close> that runs under the deferred
  \<^verbatim>\<open>recover\<close>: the panic that ends it, if any, with the syncer and the world as they
  are at that moment.
\<close>

definition processRooms ::
  "'w DefaultSyncer \<Rightarrow> RespSync option \<Rightarrow> 'w \<Rightarrow> panic option \<times> 'w DefaultSyncer \<times> 'w" where
  "processRooms s res w =
     (case res of
        None \<Rightarrow> (Some NilPointerDereference, s, w)
      | Some r \<Rightarrow>
          (case joinLoop s (Join r) w of
             (Some p, s1, w1) \<Rightarrow> (Some p, s1, w1)
           | (None, s1, w1) \<Rightarrow> inviteLoop s1 (Invite r) w1))"

text \<open>
  \<^verbatim>\<open>ProcessResponse\<close>: how the call ends, and the syncer, the caller's response and
  the world after it. A panic of \<^verbatim>\<open>shouldProcessResponse\<close> comes before the
  \<^verbatim>\<open>defer\<close> and leaves the call. A panic of lines 61 to 81 is recovered by the
  deferred function, which sets the error only \<^verbatim>\<open>if r := recover(); r != nil\<close>: after
  \<^verbatim>\<open>panic(nil)\<close> the error stays nil.
\<close>

definition ProcessResponse ::
  "'w DefaultSyncer \<Rightarrow> RespSync option \<Rightarrow> string \<Rightarrow> 'w
     \<Rightarrow> result \<times> 'w DefaultSyncer \<times> RespSync option \<times> 'w" where
  "ProcessResponse s res since w =
     (case shouldProcessResponse s res since of
        Inl p \<Rightarrow> (Panic p, s, res, w)
      | Inr (False, res') \<Rightarrow> (Return None, s, res', w)
      | Inr (True, res') \<Rightarrow>
          (case processRooms s res' w of
             (None, s', w') \<Rightarrow> (Return None, s', res', w')
           | (Some r, s', w') \<Rightarrow>
               (if r = PanicNil then (Return None, s', res', w')
                else (Return (Some (ProcessResponsePanicked (UserID s') since r)), s', res', w'))))"

section \<open>OnFailedSync\<close>

text \<open>
  \<^verbatim>\<open>time.Duration\<close> is an \<^verbatim>\<open>int64\<close> count of nanoseconds, and \<^verbatim>\<open>time.Second\<close> is
  \<open>1000 * Millisecond\<close> in Go's \<^verbatim>\<open>time\<close> package.
\<close>

type_synonym Duration = "64 word"

definition Nanosecond :: Duration where "Nanosecond = 1"
definition Microsecond :: Duration where "Microsecond = 1000 * Nanosecond"
definition Millisecond :: Duration where "Millisecond = 1000 * Microsecond"
definition Second :: Duration where "Second = 1000 * Millisecond"

definition OnFailedSync ::
  "'w DefaultSyncer \<Rightarrow> RespSync option \<Rightarrow> 'e option \<Rightarrow> Duration \<times> 'e option" where
  "OnFailedSync s res err = (10 * Second, None)"

section \<open>Notions of the specification\<close>

subsection \<open>The replay filter\<close>

text \<open>
  A membership event of the account itself that says ``join'': the event the inner loop
  of \<^verbatim>\<open>shouldProcessResponse\<close> looks for.
\<close>

definition isSelfJoin :: "string \<Rightarrow> Event \<Rightarrow> bool" where
  "isSelfJoin userID e \<longleftrightarrow>
     Type e = ''m.room.member'' \<and> StateKey e = userID
     \<and> Content e ''membership'' = Some (IString ''join'')"

definition hasSelfJoin :: "string \<Rightarrow> JoinedRoom \<Rightarrow> bool" where
  "hasSelfJoin userID roomData = list_ex (isSelfJoin userID) (Timeline_Events roomData)"

text \<open>
  The most recent membership event of the account itself in a timeline, whatever its
  membership: the first one a backward scan meets.
\<close>

definition mostRecentSelfMembership :: "string \<Rightarrow> Event list \<Rightarrow> Event option" where
  "mostRecentSelfMembership userID events =
     List.find (\<lambda>e. Type e = ''m.room.member'' \<and> StateKey e = userID) (rev events)"

text \<open>The joined rooms whose timeline holds such a ``join'', and a response without some rooms.\<close>

definition suppressedRooms :: "string \<Rightarrow> RespSync \<Rightarrow> string list" where
  "suppressedRooms userID resp =
     map fst (filter (\<lambda>(roomID, roomData). hasSelfJoin userID roomData) (Join resp))"

definition dropRooms :: "string list \<Rightarrow> RespSync \<Rightarrow> RespSync" where
  "dropRooms roomIDs resp =
     resp\<lparr>Join := filter (\<lambda>entry. fst entry \<notin> set roomIDs) (Join resp),
          Invite := filter (\<lambda>entry. fst entry \<notin> set roomIDs) (Invite resp)\<rparr>"

subsection \<open>The order of dispatch\<close>

definition stamp :: "string \<Rightarrow> Event \<Rightarrow> Event" where
  "stamp roomID ev = ev\<lparr>RoomID := roomID\<rparr>"

text \<open>
  The events of one response in the order the specification gives: room by room, the
  state events of a joined room in list order, then its timeline events in list order;
  after all joined rooms, the state events of each invited room.
\<close>

definition joinedEvents :: "string \<times> JoinedRoom \<Rightarrow> Event list" where
  "joinedEvents entry =
     map (stamp (fst entry)) (State_Events (snd entry))
     @ map (stamp (fst entry)) (Timeline_Events (snd entry))"

definition invitedEvents :: "string \<times> InvitedRoom \<Rightarrow> Event list" where
  "invitedEvents entry = map (stamp (fst entry)) (Invite_State_Events (snd entry))"

definition dispatchOrder :: "RespSync \<Rightarrow> Event list" where
  "dispatchOrder r =
     concat (map joinedEvents (Join r)) @ concat (map invitedEvents (Invite r))"

text \<open>Notifying the listeners of a list of events, one event after the other, up to the first panic.\<close>

fun dispatchAll :: "'w DefaultSyncer \<Rightarrow> Event list \<Rightarrow> 'w \<Rightarrow> panic option \<times> 'w" where
  "dispatchAll s [] w = (None, w)"
| "dispatchAll s (e # es) w =
     (case notifyListeners s e w of
        (Some p, w') \<Rightarrow> (Some p, w')
      | (None, w') \<Rightarrow> dispatchAll s es w')"

text \<open>
  The calls of listeners that a list of events asks for: for each event in turn, each
  listener registered for its type, in the order of the registry. And running a list of
  calls, one after the other, up to the first that panics.
\<close>

definition registered :: "'w DefaultSyncer \<Rightarrow> string \<Rightarrow> 'w OnEventListener list" where
  "registered s eventType = (case listeners s eventType of None \<Rightarrow> [] | Some fns \<Rightarrow> fns)"



text \<open>
  A listener that only records, under its name, the events it is called with; a series
  of \<^verbatim>\<open>OnEventType\<close> calls; and what a series of registrations \<open>(event type, name)\<close>
  of such listeners is to record for a list of events: for each event in turn, the
  names registered for its type, in the order of registration.
\<close>

definition observer :: "string \<Rightarrow> (string \<times> Event) list OnEventListener" where
  "observer name event log = (None, log @ [(name, event)])"

definition subscribeAll ::
  "(string \<times> 'w OnEventListener) list \<Rightarrow> 'w DefaultSyncer \<Rightarrow> 'w DefaultSyncer" where
  "subscribeAll regs s = foldl (\<lambda>s reg. OnEventType s (fst reg) (snd reg)) s regs"

definition observers ::
  "(string \<times> string) list \<Rightarrow> (string \<times> (string \<times> Event) list OnEventListener) list" where
  "observers regs = map (\<lambda>reg. (fst reg, observer (snd reg))) regs"

definition observed :: "(string \<times> string) list \<Rightarrow> Event list \<Rightarrow> (string \<times> Event) list" where
  "observed regs events =
     concat (map (\<lambda>e. map (\<lambda>reg. (snd reg, e)) (filter (\<lambda>reg. fst reg = Type e) regs)) events)"

text \<open>
  The error the deferred function of \<^verbatim>\<open>ProcessResponse\<close> leaves for a recovered value:
  none when nothing panicked, none for the nil value of \<^verbatim>\<open>panic(nil)\<close>, and otherwise
  the error made of the user id, the cursor and the value.
\<close>

definition returnedError :: "string \<Rightarrow> string \<Rightarrow> panic option \<Rightarrow> error option" where
  "returnedError userID since r =
     (case r of
        None \<Rightarrow> None
      | Some p \<Rightarrow> if p = PanicNil then None else Some (ProcessResponsePanicked userID since p))"

subsection \<open>The state of a room\<close>

text \<open>
  \<open>Room.State\<close> of a room of the table, read through its pointers: the event a pair of
  type and state key leads to. A room the table does not have has no state.
\<close>

definition roomState :: "'w DefaultSyncer \<Rightarrow> string \<Rightarrow> (string \<times> string \<rightharpoonup> Event)" where
  "roomState s roomID key =
     (case lookupRoom s roomID of
        None \<Rightarrow> None
      | Some room \<Rightarrow>
          (case State room key of
             None \<Rightarrow> None
           | Some p \<Rightarrow> if p < length (Vars room) then Some (Vars room ! p) else None))"

text \<open>
  The state events a response holds for one room, stamped, in the order they are
  processed: those of its joined entry, then those of its invited entry. Timeline
  events are not among them.
\<close>

definition joinedStateOf :: "string \<Rightarrow> (string \<times> JoinedRoom) list \<Rightarrow> Event list" where
  "joinedStateOf roomID entries =
     concat (map (\<lambda>entry. if fst entry = roomID
                           then map (stamp roomID) (State_Events (snd entry)) else []) entries)"

definition invitedStateOf :: "string \<Rightarrow> (string \<times> InvitedRoom) list \<Rightarrow> Event list" where
  "invitedStateOf roomID entries =
     concat (map (\<lambda>entry. if fst entry = roomID
                           then map (stamp roomID) (Invite_State_Events (snd entry)) else []) entries)"

definition mergedEvents :: "string \<Rightarrow> RespSync \<Rightarrow> Event list" where
  "mergedEvents roomID r = joinedStateOf roomID (Join r) @ invitedStateOf roomID (Invite r)"

text \<open>Last write wins: the last event of a list with a given type and state key.\<close>

definition lastWrite :: "string \<times> string \<Rightarrow> Event list \<Rightarrow> Event option" where
  "lastWrite key evs = List.find (\<lambda>e. (Type e, StateKey e) = key) (rev evs)"

subsection \<open>The scenarios of the specification\<close>

definition ex_bot :: string where
  "ex_bot = ''@bot:example.org''"

definition ex_room :: string where
  "ex_room = ''!r:example.org''"

definition ex_name :: Event where
  "ex_name = \<lparr>Type = ''m.room.name'', StateKey = '''', Sender = ''@alice:example.org'',
              RoomID = '''', Content = [''name'' \<mapsto> IString ''Test'']\<rparr>"

definition ex_renamed :: Event where
  "ex_renamed = \<lparr>Type = ''m.room.name'', StateKey = '''', Sender = ''@alice:example.org'',
                 RoomID = '''', Content = [''name'' \<mapsto> IString ''Renamed'']\<rparr>"

definition ex_message :: Event where
  "ex_message = \<lparr>Type = ''m.room.message'', StateKey = '''', Sender = ''@alice:example.org'',
                 RoomID = '''', Content = [''body'' \<mapsto> IString ''hi'']\<rparr>"

definition ex_self_join :: Event where
  "ex_self_join = \<lparr>Type = ''m.room.member'', StateKey = ''@bot:example.org'',
                   Sender = ''@bot:example.org'', RoomID = '''',
                   Content = [''membership'' \<mapsto> IString ''join'']\<rparr>"

definition ex_self_leave :: Event where
  "ex_self_leave = \<lparr>Type = ''m.room.member'', StateKey = ''@bot:example.org'',
                    Sender = ''@bot:example.org'', RoomID = '''',
                    Content = [''membership'' \<mapsto> IString ''leave'']\<rparr>"

definition ex_self_odd :: Event where
  "ex_self_odd = \<lparr>Type = ''m.room.member'', StateKey = ''@bot:example.org'',
                  Sender = ''@bot:example.org'', RoomID = '''',
                  Content = [''membership'' \<mapsto> INumber 1]\<rparr>"

text \<open>A room just joined again: the newest timeline event is the account's own ``join''.\<close>

definition ex_rejoined :: JoinedRoom where
  "ex_rejoined = \<lparr>State_Events = [ex_name], Timeline_Events = [ex_message, ex_self_join]\<rparr>"

definition ex_rejoin_resp :: RespSync where
  "ex_rejoin_resp = \<lparr>Join = [(ex_room, ex_rejoined)],
                     Invite = [(ex_room, \<lparr>Invite_State_Events = [ex_name]\<rparr>)]\<rparr>"

text \<open>A room joined and then left: the newest membership event of the account is ``leave''.\<close>

definition ex_left :: JoinedRoom where
  "ex_left = \<lparr>State_Events = [ex_name], Timeline_Events = [ex_self_join, ex_self_leave]\<rparr>"

definition ex_left_resp :: RespSync where
  "ex_left_resp = \<lparr>Join = [(ex_room, ex_left)], Invite = []\<rparr>"

text \<open>
  A room with new activity: the name is set twice, and the timeline ends with an event
  of the same type and state key as the name events.
\<close>

definition ex_active :: JoinedRoom where
  "ex_active = \<lparr>State_Events = [ex_name, ex_renamed], Timeline_Events = [ex_message, ex_name]\<rparr>"

definition ex_active_resp :: RespSync where
  "ex_active_resp = \<lparr>Join = [(ex_room, ex_active)], Invite = []\<rparr>"

text \<open>A fresh syncer, one whose listener for messages panics, and three registrations.\<close>

definition ex_syncer :: "unit DefaultSyncer" where
  "ex_syncer = NewDefaultSyncer ex_bot"

definition ex_failing :: "unit DefaultSyncer" where
  "ex_failing = OnEventType (NewDefaultSyncer ex_bot) ''m.room.message''
                  (\<lambda>event w. (Some (Raised ''listener failed''), w))"

definition ex_regs :: "(string \<times> string) list" where
  "ex_regs = [(''m.room.name'', ''first''), (''m.room.message'', ''first''),
              (''m.room.name'', ''second'')]"

text \<open>
  A room whose name is set twice and whose topic is set after that; and a syncer with a
  recording listener for the room name and a listener for messages that calls
  \<^verbatim>\<open>panic(nil)\<close>.
\<close>

definition ex_topic :: Event where
  "ex_topic = \<lparr>Type = ''m.room.topic'', StateKey = '''', Sender = ''@alice:example.org'',
               RoomID = '''', Content = [''topic'' \<mapsto> IString ''Welcome'']\<rparr>"

definition ex_named :: JoinedRoom where
  "ex_named = \<lparr>State_Events = [ex_name, ex_renamed, ex_topic], Timeline_Events = []\<rparr>"

definition ex_named_resp :: RespSync where
  "ex_named_resp = \<lparr>Join = [(ex_room, ex_named)], Invite = []\<rparr>"


section \<open>Lemmas\<close>

subsection \<open>The replay filter in closed form\<close>

lemma map_of_keys: "map_of xs k \<noteq> None \<longleftrightarrow> k \<in> fst ` set xs"
  by (simp add: map_of_eq_None_iff)

lemma scanTimeline_step:
  "scanTimeline userID roomID events (Suc i) resp =
     (if isSelfJoin userID (events ! i) \<and> roomID \<in> fst ` set (Join resp)
      then deleteRoom roomID resp
      else scanTimeline userID roomID events i resp)"
  unfolding map_of_keys [symmetric]
  by (auto simp: isSelfJoin_def Let_def split: option.splits iface.splits)

lemma scanTimeline_take:
  "n \<le> length events \<Longrightarrow>
   scanTimeline userID roomID events n resp =
     (if list_ex (isSelfJoin userID) (take n events) \<and> roomID \<in> fst ` set (Join resp)
      then deleteRoom roomID resp else resp)"
proof (induction n)
  case 0
  show ?case by simp
next
  case (Suc n)
  then have n: "n < length events" by simp
  have "take (Suc n) events = take n events @ [events ! n]"
    using n by (simp add: take_Suc_conv_app_nth)
  with Suc show ?case
    by (auto simp: scanTimeline_step list_ex_iff simp del: scanTimeline.simps)
qed

lemma scanTimeline_all:
  "scanTimeline userID roomID events (length events) resp =
     (if list_ex (isSelfJoin userID) events \<and> roomID \<in> fst ` set (Join resp)
      then deleteRoom roomID resp else resp)"
  by (simp add: scanTimeline_take)

lemma delete_as_filter: "AList.delete k xs = filter (\<lambda>entry. fst entry \<notin> set [k]) xs"
  by (auto simp: AList.delete_eq intro!: filter_cong)

lemma deleteRoom_dropRooms: "deleteRoom roomID resp = dropRooms [roomID] resp"
  by (simp only: deleteRoom_def dropRooms_def delete_as_filter)

lemma keys_Join_dropRooms:
  "fst ` set (Join (dropRooms ks resp)) = fst ` set (Join resp) - set ks"
  by (auto simp: dropRooms_def)

lemma dropRooms_set_cong: "set ks = set ks' \<Longrightarrow> dropRooms ks resp = dropRooms ks' resp"
  by (simp add: dropRooms_def)

lemma dropRooms_dropRooms:
  "dropRooms ks (dropRooms ks' resp) = dropRooms (ks' @ ks) resp"
  by (auto simp: dropRooms_def intro!: filter_cong)

lemma scanJoinedRooms_closed:
  "scanJoinedRooms userID entries resp =
     dropRooms (filter (\<lambda>k. k \<in> fst ` set (Join resp))
                  (map fst (filter (\<lambda>(roomID, roomData). hasSelfJoin userID roomData) entries))) resp"
proof (induction entries arbitrary: resp)
  case Nil
  show ?case by (simp add: dropRooms_def)
next
  case (Cons a entries)
  obtain roomID roomData where a: "a = (roomID, roomData)" by (cases a)
  let ?S = "map fst (filter (\<lambda>(roomID, roomData). hasSelfJoin userID roomData) entries)"
  show ?case
  proof (cases "hasSelfJoin userID roomData \<and> roomID \<in> fst ` set (Join resp)")
    case True
    have "scanJoinedRooms userID (a # entries) resp =
            scanJoinedRooms userID entries (dropRooms [roomID] resp)"
      using True by (simp add: a scanTimeline_all hasSelfJoin_def deleteRoom_dropRooms)
    also have "\<dots> = dropRooms ([roomID] @ filter (\<lambda>k. k \<in> fst ` set (Join resp) - set [roomID]) ?S) resp"
      by (simp only: Cons.IH keys_Join_dropRooms dropRooms_dropRooms)
    also have "\<dots> = dropRooms (filter (\<lambda>k. k \<in> fst ` set (Join resp)) (roomID # ?S)) resp"
      using True by (intro dropRooms_set_cong) auto
    finally show ?thesis using True by (simp add: a)
  next
    case False
    have "scanJoinedRooms userID (a # entries) resp = scanJoinedRooms userID entries resp"
      using False by (auto simp: a scanTimeline_all hasSelfJoin_def)
    then show ?thesis using False by (auto simp: a Cons.IH)
  qed
qed

subsection \<open>The loops follow the order of dispatch\<close>

lemma shouldProcessResponse_closed:
  "since \<noteq> '''' \<Longrightarrow>
   shouldProcessResponse s (Some r) since =
     Inr (True, Some (dropRooms (suppressedRooms (UserID s) r) r))"
proof -
  have "filter (\<lambda>k. k \<in> fst ` set (Join r)) (suppressedRooms (UserID s) r)
          = suppressedRooms (UserID s) r"
    by (auto simp: suppressedRooms_def filter_id_conv)
  then show "since \<noteq> '''' \<Longrightarrow> ?thesis"
    by (simp add: shouldProcessResponse_def scanJoinedRooms_closed suppressedRooms_def)
qed

lemma dispatchAll_append:
  "dispatchAll s (xs @ ys) w =
     (case dispatchAll s xs w of
        (Some p, w') \<Rightarrow> (Some p, w')
      | (None, w') \<Rightarrow> dispatchAll s ys w')"
  by (induction xs arbitrary: w) (auto split: prod.splits option.splits)

lemma notifyListeners_cong:
  "listeners s = listeners s' \<Longrightarrow> notifyListeners s = notifyListeners s'"
  by (auto simp: notifyListeners_def fun_eq_iff)

lemma dispatchAll_cong:
  "listeners s = listeners s' \<Longrightarrow> dispatchAll s es w = dispatchAll s' es w"
  by (induction es arbitrary: w)
     (auto simp: notifyListeners_cong [of s s'] split: prod.splits option.splits)

lemma storeRoom_frame [simp]:
  "listeners (storeRoom s roomID room) = listeners s"
  "UserID (storeRoom s roomID room) = UserID s"
  "(Rooms (storeRoom s roomID room) = None) = (Rooms s = None)"
  by (simp_all add: storeRoom_def)

lemma getOrCreateRoom_frame:
  "getOrCreateRoom s roomID = Inr (room, s') \<Longrightarrow>
     listeners s' = listeners s \<and> UserID s' = UserID s \<and> Rooms s' \<noteq> None
     \<and> lookupRoom s' roomID = Some room"
  by (auto simp: getOrCreateRoom_def lookupRoom_def split: option.splits)


lemma getOrCreateRoom_ok:
  "Rooms s \<noteq> None \<Longrightarrow> \<exists>room s'. getOrCreateRoom s roomID = Inr (room, s')"
  by (auto simp: getOrCreateRoom_def lookupRoom_def split: option.splits)

lemma timelineEventsLoop_dispatch:
  "timelineEventsLoop s roomID evs w = dispatchAll s (map (stamp roomID) evs) w"
  by (induction evs arbitrary: w) (auto simp: stamp_def split: prod.splits option.splits)

lemma stateEventsIter_frame:
  "stateEventsIter s roomID room p evs w = (q, s', w') \<Longrightarrow>
     listeners s' = listeners s \<and> UserID s' = UserID s \<and> (Rooms s' = None) = (Rooms s = None)"
proof (induction evs arbitrary: s room w)
  case Nil
  then show ?case by simp
next
  case (Cons ev evs)
  let ?event = "ev\<lparr>RoomID := roomID\<rparr>"
  let ?room2 = "UpdateState (room\<lparr>Vars := (Vars room)[p := ?event]\<rparr>) p ?event"
  let ?s1 = "storeRoom s roomID ?room2"
  obtain r v where nl: "notifyListeners ?s1 ?event w = (r, v)"
    by (cases "notifyListeners ?s1 ?event w")
  show ?case
  proof (cases r)
    case None
    with nl Cons.prems have "stateEventsIter ?s1 roomID ?room2 p evs v = (q, s', w')"
      by (simp add: Let_def)
    from Cons.IH [OF this] show ?thesis by simp
  next
    case (Some x)
    with nl Cons.prems have "s' = ?s1" by (simp add: Let_def)
    then show ?thesis by simp
  qed
qed

lemma stateEventsLoop_frame:
  "stateEventsLoop s roomID room evs w = (q, s', w') \<Longrightarrow>
     listeners s' = listeners s \<and> UserID s' = UserID s \<and> (Rooms s' = None) = (Rooms s = None)"
proof -
  assume "stateEventsLoop s roomID room evs w = (q, s', w')"
  then have "stateEventsIter (storeRoom s roomID (room\<lparr>Vars := Vars room @ [zeroEvent]\<rparr>)) roomID
               (room\<lparr>Vars := Vars room @ [zeroEvent]\<rparr>) (length (Vars room)) evs w = (q, s', w')"
    by (simp add: stateEventsLoop_def Let_def)
  from stateEventsIter_frame [OF this] show ?thesis by simp
qed

lemma stateEventsIter_dispatch:
  "stateEventsIter s roomID room p evs w = (q, s', w') \<Longrightarrow>
     dispatchAll s (map (stamp roomID) evs) w = (q, w')"
proof (induction evs arbitrary: s room w)
  case Nil
  then show ?case by simp
next
  case (Cons ev evs)
  let ?event = "ev\<lparr>RoomID := roomID\<rparr>"
  let ?room2 = "UpdateState (room\<lparr>Vars := (Vars room)[p := ?event]\<rparr>) p ?event"
  let ?s1 = "storeRoom s roomID ?room2"
  have n: "notifyListeners ?s1 = notifyListeners s"
    by (rule notifyListeners_cong) simp
  have d: "\<And>es v. dispatchAll ?s1 es v = dispatchAll s es v"
    by (rule dispatchAll_cong) simp
  obtain r v where nl: "notifyListeners s (stamp roomID ev) w = (r, v)"
    by (cases "notifyListeners s (stamp roomID ev) w")
  show ?case
  proof (cases r)
    case None
    with nl Cons.prems have "stateEventsIter ?s1 roomID ?room2 p evs v = (q, s', w')"
      by (simp add: Let_def n stamp_def)
    from Cons.IH [OF this] show ?thesis
      using nl None by (simp add: d)
  next
    case (Some x)
    with nl Cons.prems show ?thesis
      by (auto simp: Let_def n stamp_def)
  qed
qed

lemma stateEventsLoop_dispatch:
  "stateEventsLoop s roomID room evs w = (q, s', w') \<Longrightarrow>
     dispatchAll s (map (stamp roomID) evs) w = (q, w')"
proof -
  let ?room0 = "room\<lparr>Vars := Vars room @ [zeroEvent]\<rparr>"
  assume "stateEventsLoop s roomID room evs w = (q, s', w')"
  then have "stateEventsIter (storeRoom s roomID ?room0) roomID ?room0 (length (Vars room)) evs w
               = (q, s', w')"
    by (simp add: stateEventsLoop_def Let_def)
  from stateEventsIter_dispatch [OF this]
  have "dispatchAll (storeRoom s roomID ?room0) (map (stamp roomID) evs) w = (q, w')" .
  moreover have "dispatchAll (storeRoom s roomID ?room0) (map (stamp roomID) evs) w
                   = dispatchAll s (map (stamp roomID) evs) w"
    by (rule dispatchAll_cong) simp
  ultimately show ?thesis by simp
qed

lemma joinedEvents_pair:
  "joinedEvents (roomID, roomData) =
     map (stamp roomID) (State_Events roomData) @ map (stamp roomID) (Timeline_Events roomData)"
  by (simp add: joinedEvents_def)

lemma invitedEvents_pair:
  "invitedEvents (roomID, roomData) = map (stamp roomID) (Invite_State_Events roomData)"
  by (simp add: invitedEvents_def)

lemma joinLoop_dispatch:
  "Rooms s \<noteq> None \<Longrightarrow> joinLoop s entries w = (p, s', w') \<Longrightarrow>
     dispatchAll s (concat (map joinedEvents entries)) w = (p, w')
     \<and> listeners s' = listeners s \<and> UserID s' = UserID s \<and> Rooms s' \<noteq> None"
proof (induction entries arbitrary: s w)
  case Nil
  then show ?case by simp
next
  case (Cons entry rest)
  obtain roomID roomData where entry: "entry = (roomID, roomData)" by (cases entry)
  obtain room s1 where g: "getOrCreateRoom s roomID = Inr (room, s1)"
    using getOrCreateRoom_ok [OF Cons.prems(1)] by blast
  note f1 = getOrCreateRoom_frame [OF g]
  obtain q2 s2 w2 where st: "stateEventsLoop s1 roomID room (State_Events roomData) w = (q2, s2, w2)"
    by (cases "stateEventsLoop s1 roomID room (State_Events roomData) w")
  note f2 = stateEventsLoop_frame [OF st]
  have d2: "dispatchAll s (map (stamp roomID) (State_Events roomData)) w = (q2, w2)"
    using stateEventsLoop_dispatch [OF st] f1 dispatchAll_cong [of s1 s] by simp
  show ?case
  proof (cases q2)
    case (Some r)
    with g st Cons.prems(2) have "p = Some r" "s' = s2" "w' = w2"
      by (simp_all add: entry)
    with d2 Some f1 f2 show ?thesis
      by (simp add: entry joinedEvents_pair dispatchAll_append)
  next
    case None
    obtain q3 w3 where tl: "timelineEventsLoop s2 roomID (Timeline_Events roomData) w2 = (q3, w3)"
      by (cases "timelineEventsLoop s2 roomID (Timeline_Events roomData) w2")
    have d3: "dispatchAll s (map (stamp roomID) (Timeline_Events roomData)) w2 = (q3, w3)"
      using tl f1 f2 dispatchAll_cong [of s2 s] by (simp add: timelineEventsLoop_dispatch)
    show ?thesis
    proof (cases q3)
      case (Some r)
      with g st tl None Cons.prems(2) have "p = Some r" "s' = s2" "w' = w3"
        by (simp_all add: entry)
      with d2 d3 None Some f1 f2 show ?thesis
        by (simp add: entry joinedEvents_pair dispatchAll_append)
    next
      case q3: None
      with g st tl None Cons.prems(2) have r: "joinLoop s2 rest w3 = (p, s', w')"
        by (simp add: entry)
      have "Rooms s2 \<noteq> None" using f1 f2 by simp
      from Cons.IH [OF this r] have
        "dispatchAll s2 (concat (map joinedEvents rest)) w3 = (p, w')"
        "listeners s' = listeners s2" "UserID s' = UserID s2" "Rooms s' \<noteq> None"
        by simp_all
      with d2 d3 None q3 f1 f2 dispatchAll_cong [of s2 s] show ?thesis
        by (simp add: entry joinedEvents_pair dispatchAll_append)
    qed
  qed
qed

lemma inviteLoop_dispatch:
  "Rooms s \<noteq> None \<Longrightarrow> inviteLoop s entries w = (p, s', w') \<Longrightarrow>
     dispatchAll s (concat (map invitedEvents entries)) w = (p, w')
     \<and> listeners s' = listeners s \<and> UserID s' = UserID s \<and> Rooms s' \<noteq> None"
proof (induction entries arbitrary: s w)
  case Nil
  then show ?case by simp
next
  case (Cons entry rest)
  obtain roomID roomData where entry: "entry = (roomID, roomData)" by (cases entry)
  obtain room s1 where g: "getOrCreateRoom s roomID = Inr (room, s1)"
    using getOrCreateRoom_ok [OF Cons.prems(1)] by blast
  note f1 = getOrCreateRoom_frame [OF g]
  obtain q2 s2 w2 where st:
    "stateEventsLoop s1 roomID room (Invite_State_Events roomData) w = (q2, s2, w2)"
    by (cases "stateEventsLoop s1 roomID room (Invite_State_Events roomData) w")
  note f2 = stateEventsLoop_frame [OF st]
  have d2: "dispatchAll s (map (stamp roomID) (Invite_State_Events roomData)) w = (q2, w2)"
    using stateEventsLoop_dispatch [OF st] f1 dispatchAll_cong [of s1 s] by simp
  show ?case
  proof (cases q2)
    case (Some r)
    with g st Cons.prems(2) have "p = Some r" "s' = s2" "w' = w2"
      by (simp_all add: entry)
    with d2 Some f1 f2 show ?thesis
      by (simp add: entry invitedEvents_pair dispatchAll_append)
  next
    case None
    with g st Cons.prems(2) have r: "inviteLoop s2 rest w2 = (p, s', w')"
      by (simp add: entry)
    have "Rooms s2 \<noteq> None" using f1 f2 by simp
    from Cons.IH [OF this r] have
      "dispatchAll s2 (concat (map invitedEvents rest)) w2 = (p, w')"
      "listeners s' = listeners s2" "UserID s' = UserID s2" "Rooms s' \<noteq> None"
      by simp_all
    with d2 None f1 f2 dispatchAll_cong [of s2 s] show ?thesis
      by (simp add: entry invitedEvents_pair dispatchAll_append)
  qed
qed

lemma processRooms_dispatch:
  assumes "Rooms s \<noteq> None" and "processRooms s (Some r) w = (p, s', w')"
  shows "dispatchAll s (dispatchOrder r) w = (p, w')
     \<and> listeners s' = listeners s \<and> UserID s' = UserID s \<and> Rooms s' \<noteq> None"
proof -
  obtain q1 s1 w1 where j: "joinLoop s (Join r) w = (q1, s1, w1)"
    by (cases "joinLoop s (Join r) w")
  note dj = joinLoop_dispatch [OF assms(1) j]
  show ?thesis
  proof (cases q1)
    case (Some x)
    with j assms(2) have "p = Some x" "s' = s1" "w' = w1"
      by (simp_all add: processRooms_def)
    with dj Some show ?thesis
      by (simp add: dispatchOrder_def dispatchAll_append)
  next
    case None
    with j assms(2) have i: "inviteLoop s1 (Invite r) w1 = (p, s', w')"
      by (simp add: processRooms_def)
    have "Rooms s1 \<noteq> None" using dj by simp
    from inviteLoop_dispatch [OF this i] dj None dispatchAll_cong [of s1 s]
    show ?thesis
      by (simp add: dispatchOrder_def dispatchAll_append)
  qed
qed




subsection \<open>Rooms the response does not name\<close>

lemma lookupRoom_storeRoom_other:
  "k \<noteq> roomID \<Longrightarrow> lookupRoom (storeRoom s roomID room) k = lookupRoom s k"
  by (auto simp: lookupRoom_def storeRoom_def split: option.splits)

lemma stateEventsIter_other:
  "stateEventsIter s roomID room p evs w = (q, s', w') \<Longrightarrow> k \<noteq> roomID \<Longrightarrow>
     lookupRoom s' k = lookupRoom s k"
proof (induction evs arbitrary: s room w)
  case Nil
  then show ?case by simp
next
  case (Cons ev evs)
  let ?event = "ev\<lparr>RoomID := roomID\<rparr>"
  let ?room2 = "UpdateState (room\<lparr>Vars := (Vars room)[p := ?event]\<rparr>) p ?event"
  let ?s1 = "storeRoom s roomID ?room2"
  obtain r v where nl: "notifyListeners ?s1 ?event w = (r, v)"
    by (cases "notifyListeners ?s1 ?event w")
  show ?case
  proof (cases r)
    case None
    with nl Cons.prems have "stateEventsIter ?s1 roomID ?room2 p evs v = (q, s', w')"
      by (simp add: Let_def)
    from Cons.IH [OF this Cons.prems(2)] show ?thesis
      using Cons.prems(2) by (simp add: lookupRoom_storeRoom_other)
  next
    case (Some x)
    with nl Cons.prems have "s' = ?s1" by (simp add: Let_def)
    then show ?thesis using Cons.prems(2) by (simp add: lookupRoom_storeRoom_other)
  qed
qed

lemma stateEventsLoop_other:
  "stateEventsLoop s roomID room evs w = (q, s', w') \<Longrightarrow> k \<noteq> roomID \<Longrightarrow>
     lookupRoom s' k = lookupRoom s k"
proof -
  let ?room0 = "room\<lparr>Vars := Vars room @ [zeroEvent]\<rparr>"
  assume "stateEventsLoop s roomID room evs w = (q, s', w')" and k: "k \<noteq> roomID"
  then have "stateEventsIter (storeRoom s roomID ?room0) roomID ?room0 (length (Vars room)) evs w
               = (q, s', w')"
    by (simp add: stateEventsLoop_def Let_def)
  from stateEventsIter_other [OF this k] k show ?thesis
    by (simp add: lookupRoom_storeRoom_other)
qed

lemma getOrCreateRoom_other:
  "getOrCreateRoom s roomID = Inr (room, s') \<Longrightarrow> k \<noteq> roomID \<Longrightarrow> lookupRoom s' k = lookupRoom s k"
  by (auto simp: getOrCreateRoom_def lookupRoom_def split: option.splits)

lemma joinLoop_other:
  "joinLoop s entries w = (p, s', w') \<Longrightarrow> k \<notin> fst ` set entries \<Longrightarrow>
     lookupRoom s' k = lookupRoom s k"
proof (induction entries arbitrary: s w)
  case Nil
  then show ?case by simp
next
  case (Cons entry rest)
  obtain roomID roomData where entry: "entry = (roomID, roomData)" by (cases entry)
  have ne: "k \<noteq> roomID" and nr: "k \<notin> fst ` set rest"
    using Cons.prems(2) by (auto simp: entry)
  show ?case
  proof (cases "getOrCreateRoom s roomID")
    case (Inl a)
    with Cons.prems(1) show ?thesis by (simp add: entry)
  next
    case (Inr b)
    obtain room s1 where b: "b = (room, s1)" by (cases b)
    note g = Inr [unfolded b]
    have l1: "lookupRoom s1 k = lookupRoom s k"
      using getOrCreateRoom_other [OF g ne] .
    obtain q2 s2 w2 where st:
      "stateEventsLoop s1 roomID room (State_Events roomData) w = (q2, s2, w2)"
      by (cases "stateEventsLoop s1 roomID room (State_Events roomData) w")
    have l2: "lookupRoom s2 k = lookupRoom s k"
      using stateEventsLoop_other [OF st ne] l1 by simp
    obtain q3 w3 where tl: "timelineEventsLoop s2 roomID (Timeline_Events roomData) w2 = (q3, w3)"
      by (cases "timelineEventsLoop s2 roomID (Timeline_Events roomData) w2")
    show ?thesis
    proof (cases "q2 = None \<and> q3 = None")
      case True
      with Cons.prems(1) g st tl have "joinLoop s2 rest w3 = (p, s', w')"
        by (simp add: entry)
      from Cons.IH [OF this nr] l2 show ?thesis by simp
    next
      case False
      with Cons.prems(1) g st tl have "s' = s2"
        by (cases q2; cases q3) (simp_all add: entry)
      with l2 show ?thesis by simp
    qed
  qed
qed

lemma inviteLoop_other:
  "inviteLoop s entries w = (p, s', w') \<Longrightarrow> k \<notin> fst ` set entries \<Longrightarrow>
     lookupRoom s' k = lookupRoom s k"
proof (induction entries arbitrary: s w)
  case Nil
  then show ?case by simp
next
  case (Cons entry rest)
  obtain roomID roomData where entry: "entry = (roomID, roomData)" by (cases entry)
  have ne: "k \<noteq> roomID" and nr: "k \<notin> fst ` set rest"
    using Cons.prems(2) by (auto simp: entry)
  show ?case
  proof (cases "getOrCreateRoom s roomID")
    case (Inl a)
    with Cons.prems(1) show ?thesis by (simp add: entry)
  next
    case (Inr b)
    obtain room s1 where b: "b = (room, s1)" by (cases b)
    note g = Inr [unfolded b]
    have l1: "lookupRoom s1 k = lookupRoom s k"
      using getOrCreateRoom_other [OF g ne] .
    obtain q2 s2 w2 where st:
      "stateEventsLoop s1 roomID room (Invite_State_Events roomData) w = (q2, s2, w2)"
      by (cases "stateEventsLoop s1 roomID room (Invite_State_Events roomData) w")
    have l2: "lookupRoom s2 k = lookupRoom s k"
      using stateEventsLoop_other [OF st ne] l1 by simp
    show ?thesis
    proof (cases q2)
      case None
      with Cons.prems(1) g st have "inviteLoop s2 rest w2 = (p, s', w')"
        by (simp add: entry)
      from Cons.IH [OF this nr] l2 show ?thesis by simp
    next
      case (Some x)
      with Cons.prems(1) g st have "s' = s2"
        by (simp add: entry)
      with l2 show ?thesis by simp
    qed
  qed
qed

lemma processRooms_other:
  assumes "processRooms s (Some r) w = (p, s', w')"
    and "k \<notin> fst ` set (Join r)" and "k \<notin> fst ` set (Invite r)"
  shows "lookupRoom s' k = lookupRoom s k"
proof -
  obtain q1 s1 w1 where j: "joinLoop s (Join r) w = (q1, s1, w1)"
    by (cases "joinLoop s (Join r) w")
  note l1 = joinLoop_other [OF j assms(2)]
  show ?thesis
  proof (cases q1)
    case None
    with assms(1) j have "inviteLoop s1 (Invite r) w1 = (p, s', w')"
      by (simp add: processRooms_def)
    from inviteLoop_other [OF this assms(3)] l1 show ?thesis by simp
  next
    case (Some x)
    with assms(1) j have "s' = s1" by (simp add: processRooms_def)
    with l1 show ?thesis by simp
  qed
qed

lemma ProcessResponse_processed:
  "since \<noteq> '''' \<Longrightarrow>
   ProcessResponse s (Some res) since w =
     (case processRooms s (Some (dropRooms (suppressedRooms (UserID s) res) res)) w of
        (p, s', w') \<Rightarrow>
          (Return (returnedError (UserID s') since p), s',
           Some (dropRooms (suppressedRooms (UserID s) res) res), w'))"
  by (simp add: ProcessResponse_def shouldProcessResponse_closed returnedError_def
           split: prod.splits option.splits)

lemma keys_dropRooms:
  "fst ` set (Join (dropRooms ks resp)) = fst ` set (Join resp) - set ks"
  "fst ` set (Invite (dropRooms ks resp)) = fst ` set (Invite resp) - set ks"
  by (auto simp: dropRooms_def)

lemma mostRecent_hasSelfJoin:
  assumes "mostRecentSelfMembership userID (Timeline_Events roomData) = Some e"
    and "Content e ''membership'' = Some (IString ''join'')"
  shows "hasSelfJoin userID roomData"
proof -
  let ?P = "\<lambda>e. Type e = ''m.room.member'' \<and> StateKey e = userID"
  from assms(1) obtain i where i: "i < length (rev (Timeline_Events roomData))"
    and p: "?P (rev (Timeline_Events roomData) ! i)"
    and e: "e = rev (Timeline_Events roomData) ! i"
    unfolding mostRecentSelfMembership_def find_Some_iff by blast
  from i e have "e \<in> set (rev (Timeline_Events roomData))"
    using nth_mem by blast
  then have "e \<in> set (Timeline_Events roomData)" by simp
  moreover have "isSelfJoin userID e"
    using p e assms(2) by (simp add: isSelfJoin_def)
  ultimately show ?thesis
    unfolding hasSelfJoin_def list_ex_iff by blast
qed

lemma set_suppressedRooms:
  "set (suppressedRooms userID res) =
     {roomID. \<exists>roomData. (roomID, roomData) \<in> set (Join res) \<and> hasSelfJoin userID roomData}"
  unfolding suppressedRooms_def by force

lemma in_suppressedRooms:
  "(roomID, roomData) \<in> set (Join res) \<Longrightarrow> hasSelfJoin userID roomData \<Longrightarrow>
     roomID \<in> set (suppressedRooms userID res)"
  unfolding set_suppressedRooms by blast

lemma Join_deleteRoom:
  "set (Join (deleteRoom roomID res)) = {entry \<in> set (Join res). fst entry \<noteq> roomID}"
  by (simp add: deleteRoom_def delete_as_filter)

lemma suppressedRooms_deleteRoom:
  "set (suppressedRooms userID (deleteRoom roomID res)) = set (suppressedRooms userID res) - {roomID}"
  unfolding set_suppressedRooms Join_deleteRoom by auto

lemma dropRooms_deleteRoom:
  assumes "roomID \<in> set (suppressedRooms userID res)"
  shows "dropRooms (suppressedRooms userID (deleteRoom roomID res)) (deleteRoom roomID res)
           = dropRooms (suppressedRooms userID res) res"
proof -
  have "dropRooms (suppressedRooms userID (deleteRoom roomID res)) (deleteRoom roomID res)
          = dropRooms ([roomID] @ suppressedRooms userID (deleteRoom roomID res)) res"
    by (simp only: deleteRoom_dropRooms [of roomID res] dropRooms_dropRooms)
  also have "\<dots> = dropRooms (suppressedRooms userID res) res"
  proof (rule dropRooms_set_cong)
    show "set ([roomID] @ suppressedRooms userID (deleteRoom roomID res)) = set (suppressedRooms userID res)"
      using assms unfolding set_append suppressedRooms_deleteRoom by auto
  qed
  finally show ?thesis .
qed

lemma ProcessResponse_deleteRoom:
  "since \<noteq> '''' \<Longrightarrow> roomID \<in> set (suppressedRooms (UserID s) res) \<Longrightarrow>
     ProcessResponse s (Some (deleteRoom roomID res)) since w = ProcessResponse s (Some res) since w"
  by (simp add: ProcessResponse_processed dropRooms_deleteRoom)

lemma ProcessResponse_response:
  "since \<noteq> '''' \<Longrightarrow>
     fst (snd (snd (ProcessResponse s (Some res) since w)))
       = Some (dropRooms (suppressedRooms (UserID s) res) res)"
  by (simp add: ProcessResponse_processed split: prod.splits)

lemma distinct_keys_unique:
  "distinct (map fst xs) \<Longrightarrow> (k, v) \<in> set xs \<Longrightarrow> (k, v') \<in> set xs \<Longrightarrow> v = v'"
  by (meson eq_key_imp_eq_value)

subsection \<open>Registration and recording listeners\<close>

lemma registered_OnEventType:
  "registered (OnEventType s t fn) t' = (if t' = t then registered s t @ [fn] else registered s t')"
  by (auto simp: registered_def OnEventType_def Let_def split: option.splits)

lemma OnEventType_frame [simp]:
  "Rooms (OnEventType s t fn) = Rooms s" "UserID (OnEventType s t fn) = UserID s"
  by (simp_all add: OnEventType_def Let_def)

lemma subscribeAll_frame [simp]:
  "Rooms (subscribeAll regs s) = Rooms s" "UserID (subscribeAll regs s) = UserID s"
  by (induction regs arbitrary: s) (simp_all add: subscribeAll_def)

lemma registered_subscribeAll:
  "registered (subscribeAll regs s) t = registered s t @ map snd (filter (\<lambda>reg. fst reg = t) regs)"
proof (induction regs arbitrary: s)
  case Nil
  show ?case by (simp add: subscribeAll_def)
next
  case (Cons reg regs)
  have "subscribeAll (reg # regs) s = subscribeAll regs (OnEventType s (fst reg) (snd reg))"
    by (simp add: subscribeAll_def)
  then show ?case
    by (simp add: Cons.IH registered_OnEventType)
qed

lemma notifyListeners_registered:
  "notifyListeners s e w = callListeners (registered s (Type e)) e w"
  by (simp add: notifyListeners_def registered_def split: option.splits)

lemma callListeners_observers:
  "callListeners (map (\<lambda>x. observer (f x)) xs) e log = (None, log @ map (\<lambda>x. (f x, e)) xs)"
  by (induction xs arbitrary: log) (simp_all add: observer_def)

lemma notifyListeners_observers:
  assumes "listeners s0 = Map.empty"
  shows "notifyListeners (subscribeAll (observers regs) s0) e log =
           (None, log @ map (\<lambda>reg. (snd reg, e)) (filter (\<lambda>reg. fst reg = Type e) regs))"
proof -
  have "registered s0 (Type e) = []"
    using assms by (simp add: registered_def)
  then have "registered (subscribeAll (observers regs) s0) (Type e) =
          map observer (map snd (filter (\<lambda>reg. fst reg = Type e) regs))"
    by (simp add: registered_subscribeAll observers_def filter_map comp_def)
  then show ?thesis
    by (simp add: notifyListeners_registered callListeners_observers comp_def)
qed

lemma dispatchAll_observers:
  assumes "listeners s0 = Map.empty"
  shows "dispatchAll (subscribeAll (observers regs) s0) es log = (None, log @ observed regs es)"
proof (induction es arbitrary: log)
  case Nil
  show ?case by (simp add: observed_def)
next
  case (Cons e es)
  show ?case
    by (simp add: notifyListeners_observers [OF assms] Cons.IH observed_def)
qed

lemma returnedError_None [simp]: "returnedError userID since None = None"
  by (simp add: returnedError_def)

lemma registered_NewDefaultSyncer [simp]: "registered (NewDefaultSyncer userID) eventType = []"
  by (simp add: registered_def NewDefaultSyncer_def)




lemma ProcessResponse_dispatch:
  assumes "since \<noteq> ''''" and "Rooms s \<noteq> None"
    and "ProcessResponse s (Some res) since w = (out, s', res', w')"
  shows "res' = Some (dropRooms (suppressedRooms (UserID s) res) res)
         \<and> out = Return (returnedError (UserID s) since
                   (fst (dispatchAll s (dispatchOrder (dropRooms (suppressedRooms (UserID s) res) res)) w)))
         \<and> w' = snd (dispatchAll s (dispatchOrder (dropRooms (suppressedRooms (UserID s) res) res)) w)"
proof -
  let ?r = "dropRooms (suppressedRooms (UserID s) res) res"
  obtain p s1 w1 where pr: "processRooms s (Some ?r) w = (p, s1, w1)"
    by (cases "processRooms s (Some ?r) w")
  note d = processRooms_dispatch [OF assms(2) pr]
  from assms(1,3) pr have "out = Return (returnedError (UserID s1) since p)"
    "res' = Some ?r" "w' = w1"
    by (auto simp: ProcessResponse_processed)
  with d show ?thesis by simp
qed

lemma ProcessResponse_empty_cursor:
  "ProcessResponse s res '''' w = (Return None, s, res, w)"
  by (simp add: ProcessResponse_def shouldProcessResponse_def)

lemmas ex_defs = ex_bot_def ex_room_def ex_name_def ex_renamed_def ex_message_def
  ex_self_join_def ex_self_leave_def ex_self_odd_def ex_rejoined_def ex_rejoin_resp_def
  ex_left_def ex_left_resp_def ex_active_def ex_active_resp_def ex_syncer_def ex_failing_def
  NewDefaultSyncer_def

section \<open>The first sync\<close>

text \<open>
  C3. Called with the empty cursor, \<^verbatim>\<open>ProcessResponse\<close> returns no error, and the
  syncer (so the table of rooms), the response and the world the callbacks act on are
  what they were: whatever listeners are registered, none has run. This holds for every
  response, the nil one too.
\<close>

theorem first_sync_discarded:
  "ProcessResponse s res '''' w = (Return None, s, res, w)"
  by (simp add: ProcessResponse_def shouldProcessResponse_def)

section \<open>Replay suppression\<close>

text \<open>
  C1. Take a response with a joined room whose most recent membership event of the
  account itself says ``join''. For every cursor, the table's entry for that room is
  what it was before the call, and the call ends as it does on the response from which
  the room was deleted beforehand, with the same syncer and the same world: no state
  event of the room is merged and no event of the room reaches a listener. When the
  cursor is not empty, so that the response is processed at all, the room is in neither
  the joined nor the invited rooms of the response after the call; the loops that merge
  and dispatch run on that response.
\<close>

theorem rejoined_room_not_processed:
  assumes "(roomID, roomData) \<in> set (Join res)"
    and "mostRecentSelfMembership (UserID s) (Timeline_Events roomData) = Some e"
    and "Content e ''membership'' = Some (IString ''join'')"
    and "ProcessResponse s (Some res) since w = (out, s', res', w')"
  shows "(since \<noteq> '''' \<longrightarrow>
            (\<exists>r. res' = Some r \<and> roomID \<notin> fst ` set (Join r) \<and> roomID \<notin> fst ` set (Invite r)))
         \<and> lookupRoom s' roomID = lookupRoom s roomID
         \<and> ProcessResponse s (Some (deleteRoom roomID res)) since w =
             (out, s', if since = '''' then Some (deleteRoom roomID res) else res', w')"
proof (cases "since = ''''")
  case True
  with assms(4) show ?thesis
    by (simp add: ProcessResponse_empty_cursor)
next
  case False
  let ?r = "dropRooms (suppressedRooms (UserID s) res) res"
  have sup: "roomID \<in> set (suppressedRooms (UserID s) res)"
    using assms(1-3) by (intro in_suppressedRooms mostRecent_hasSelfJoin)
  obtain p s1 w1 where pr: "processRooms s (Some ?r) w = (p, s1, w1)"
    by (cases "processRooms s (Some ?r) w")
  from assms(4) False pr have eqs: "s' = s1" "res' = Some ?r"
    by (auto simp: ProcessResponse_processed)
  have absent: "roomID \<notin> fst ` set (Join ?r)" "roomID \<notin> fst ` set (Invite ?r)"
    using sup by (simp_all add: keys_dropRooms)
  have "lookupRoom s1 roomID = lookupRoom s roomID"
    using processRooms_other [OF pr absent] .
  moreover have "ProcessResponse s (Some (deleteRoom roomID res)) since w = (out, s', res', w')"
    using ProcessResponse_deleteRoom [OF False sup] assms(4) by simp
  ultimately show ?thesis
    using False eqs absent by simp
qed

text \<open>
  The room that was joined again, also among the invited rooms, cursor \<open>s1\<close>: the
  response comes back empty, the table has no entry for the room, nothing else changes.
\<close>

theorem rejoined_room_not_processed_witness:
  "(ex_room, ex_rejoined) \<in> set (Join ex_rejoin_resp)
   \<and> mostRecentSelfMembership (UserID ex_syncer) (Timeline_Events ex_rejoined) = Some ex_self_join
   \<and> Content ex_self_join ''membership'' = Some (IString ''join'')
   \<and> ProcessResponse ex_syncer (Some ex_rejoin_resp) ''s1'' ()
       = (Return None, ex_syncer, Some \<lparr>Join = [], Invite = []\<rparr>, ())
   \<and> lookupRoom ex_syncer ex_room = None
   \<and> ProcessResponse ex_syncer (Some (deleteRoom ex_room ex_rejoin_resp)) ''s1'' ()
       = (Return None, ex_syncer, Some \<lparr>Join = [], Invite = []\<rparr>, ())"
proof -
  have h1: "(ex_room, ex_rejoined) \<in> set (Join ex_rejoin_resp)"
    by (simp add: ex_rejoin_resp_def)
  have h2: "mostRecentSelfMembership (UserID ex_syncer) (Timeline_Events ex_rejoined) = Some ex_self_join"
    by (simp add: ex_defs mostRecentSelfMembership_def)
  have h3: "Content ex_self_join ''membership'' = Some (IString ''join'')"
    by (simp add: ex_self_join_def)
  have h4: "ProcessResponse ex_syncer (Some ex_rejoin_resp) ''s1'' ()
              = (Return None, ex_syncer, Some \<lparr>Join = [], Invite = []\<rparr>, ())"
    by (simp add: ex_defs ProcessResponse_def shouldProcessResponse_def deleteRoom_def
                  processRooms_def)
  have h5: "lookupRoom ex_syncer ex_room = None"
    by (simp add: ex_defs lookupRoom_def)
  from rejoined_room_not_processed [OF h1 h2 h3 h4] h1 h2 h3 h4 h5 show ?thesis by simp
qed

text \<open>
  C2, as stated, fails. In the timeline \<open>[join, leave]\<close> the first membership event of
  the account that the backward scan meets says ``leave''; the scan does not stop
  there, it goes on to the older ``join'', and the room is removed.
\<close>

theorem scan_passes_over_leave_counterexample:
  "mostRecentSelfMembership ex_bot (Timeline_Events ex_left) = Some ex_self_leave
   \<and> Content ex_self_leave ''membership'' = Some (IString ''leave'')
   \<and> shouldProcessResponse ex_syncer (Some ex_left_resp) ''s1''
       = Inr (True, Some \<lparr>Join = [], Invite = []\<rparr>)"
  by (simp add: ex_defs mostRecentSelfMembership_def shouldProcessResponse_def deleteRoom_def)

text \<open>
  C2, amended. In the replay-suppression pass the timeline of a joined room is scanned
  from the most recent event to the least recent. At each index only a membership event
  of the account that says ``join'' ends the scan, and the room is then removed; at any
  other event, a membership event of the account with another membership too, the scan
  goes on with the next older event. So a joined room is removed, from the joined and
  from the invited rooms, exactly when its timeline holds some membership event of the
  account that says ``join''; otherwise its entry stays, and so do its invited entries.
\<close>

theorem room_dropped_iff_some_self_join:
  assumes "since \<noteq> ''''"
    and "distinct (map fst (Join res))"
    and "(roomID, roomData) \<in> set (Join res)"
  shows "(\<exists>res'. shouldProcessResponse s (Some res) since = Inr (True, Some res')
           \<and> (if list_ex (isSelfJoin (UserID s)) (Timeline_Events roomData)
               then roomID \<notin> fst ` set (Join res') \<and> roomID \<notin> fst ` set (Invite res')
               else (roomID, roomData) \<in> set (Join res')
                    \<and> (\<forall>inv. (roomID, inv) \<in> set (Invite res') \<longleftrightarrow> (roomID, inv) \<in> set (Invite res))))
         \<and> (\<forall>i resp. scanTimeline (UserID s) roomID (Timeline_Events roomData) (Suc i) resp =
               (if isSelfJoin (UserID s) (Timeline_Events roomData ! i)
                   \<and> roomID \<in> fst ` set (Join resp)
                then deleteRoom roomID resp
                else scanTimeline (UserID s) roomID (Timeline_Events roomData) i resp))"
proof -
  have scan: "\<forall>i resp. scanTimeline (UserID s) roomID (Timeline_Events roomData) (Suc i) resp =
               (if isSelfJoin (UserID s) (Timeline_Events roomData ! i)
                   \<and> roomID \<in> fst ` set (Join resp)
                then deleteRoom roomID resp
                else scanTimeline (UserID s) roomID (Timeline_Events roomData) i resp)"
    by (simp only: scanTimeline_step simp_thms)
  let ?r = "dropRooms (suppressedRooms (UserID s) res) res"
  have c: "shouldProcessResponse s (Some res) since = Inr (True, Some ?r)"
    using assms(1) by (rule shouldProcessResponse_closed)
  have iff: "roomID \<in> set (suppressedRooms (UserID s) res) \<longleftrightarrow> hasSelfJoin (UserID s) roomData"
  proof
    assume "roomID \<in> set (suppressedRooms (UserID s) res)"
    then obtain rd where "(roomID, rd) \<in> set (Join res)" and h: "hasSelfJoin (UserID s) rd"
      unfolding set_suppressedRooms by blast
    with assms(2,3) have "rd = roomData" using distinct_keys_unique by fast
    with h show "hasSelfJoin (UserID s) roomData" by simp
  next
    assume "hasSelfJoin (UserID s) roomData"
    with assms(3) show "roomID \<in> set (suppressedRooms (UserID s) res)"
      by (rule in_suppressedRooms)
  qed
  have pass: "\<exists>res'. shouldProcessResponse s (Some res) since = Inr (True, Some res')
           \<and> (if list_ex (isSelfJoin (UserID s)) (Timeline_Events roomData)
               then roomID \<notin> fst ` set (Join res') \<and> roomID \<notin> fst ` set (Invite res')
               else (roomID, roomData) \<in> set (Join res')
                    \<and> (\<forall>inv. (roomID, inv) \<in> set (Invite res') \<longleftrightarrow> (roomID, inv) \<in> set (Invite res)))"
  proof (cases "list_ex (isSelfJoin (UserID s)) (Timeline_Events roomData)")
    case True
    then have "roomID \<in> set (suppressedRooms (UserID s) res)"
      using iff by (simp add: hasSelfJoin_def)
    then show ?thesis using c True by (simp add: keys_dropRooms)
  next
    case False
    then have n: "roomID \<notin> set (suppressedRooms (UserID s) res)"
      using iff by (simp add: hasSelfJoin_def)
    have "(roomID, roomData) \<in> set (Join ?r)"
      using n assms(3) by (simp add: dropRooms_def)
    moreover have "\<forall>inv. (roomID, inv) \<in> set (Invite ?r) \<longleftrightarrow> (roomID, inv) \<in> set (Invite res)"
      using n by (simp add: dropRooms_def)
    ultimately show ?thesis using c False by simp
  qed
  from pass scan show ?thesis by (rule conjI)
qed

text \<open>The room that was joined and left: its timeline holds a ``join'', and it is removed.\<close>

theorem room_dropped_iff_some_self_join_witness:
  "''s1'' \<noteq> '''' \<and> distinct (map fst (Join ex_left_resp))
   \<and> (ex_room, ex_left) \<in> set (Join ex_left_resp)
   \<and> list_ex (isSelfJoin (UserID ex_syncer)) (Timeline_Events ex_left)
   \<and> shouldProcessResponse ex_syncer (Some ex_left_resp) ''s1''
       = Inr (True, Some \<lparr>Join = [], Invite = []\<rparr>)"
proof -
  have h1: "''s1'' \<noteq> ''''" by simp
  have h2: "distinct (map fst (Join ex_left_resp))" by (simp add: ex_left_resp_def)
  have h3: "(ex_room, ex_left) \<in> set (Join ex_left_resp)" by (simp add: ex_left_resp_def)
  have h4: "list_ex (isSelfJoin (UserID ex_syncer)) (Timeline_Events ex_left)"
    by (simp add: ex_defs isSelfJoin_def)
  have h5: "shouldProcessResponse ex_syncer (Some ex_left_resp) ''s1''
       = Inr (True, Some \<lparr>Join = [], Invite = []\<rparr>)"
    by (simp add: ex_defs shouldProcessResponse_def deleteRoom_def)
  from room_dropped_iff_some_self_join [OF h1 h2 h3, of ex_syncer] h1 h2 h3 h4 h5
  show ?thesis by simp
qed

text \<open>
  C10. A membership event of the account whose content has no \<open>membership\<close> field, or
  one that is not a string, is passed over: at its index the scan goes on with the next
  older index and an untouched response, and the whole scan ends as the scan of the
  timeline without that event does. The scan returns a response in every case; it has
  no way to fail.
\<close>

theorem malformed_membership_skipped:
  assumes "Type e = ''m.room.member''" and "StateKey e = userID"
    and "\<forall>m. Content e ''membership'' \<noteq> Some (IString m)"
  shows "scanTimeline userID roomID (older @ e # newer) (Suc (length older)) resp
           = scanTimeline userID roomID (older @ e # newer) (length older) resp
         \<and> scanTimeline userID roomID (older @ e # newer) (length (older @ e # newer)) resp
           = scanTimeline userID roomID (older @ newer) (length (older @ newer)) resp"
proof -
  have n: "\<not> isSelfJoin userID e"
    using assms(3) by (simp add: isSelfJoin_def)
  have "scanTimeline userID roomID (older @ e # newer) (Suc (length older)) resp
          = scanTimeline userID roomID (older @ e # newer) (length older) resp"
    using n by (simp add: scanTimeline_step del: scanTimeline.simps)
  moreover have "scanTimeline userID roomID (older @ e # newer) (length (older @ e # newer)) resp
          = scanTimeline userID roomID (older @ newer) (length (older @ newer)) resp"
    unfolding scanTimeline_all using n by (simp add: list_ex_iff)
  ultimately show ?thesis by simp
qed

text \<open>
  A timeline whose newest event is a membership event of the account with the number 1
  for its membership, after a ``join'': the scan passes it, meets the ``join'' and
  removes the room.
\<close>

theorem malformed_membership_skipped_witness:
  "Type ex_self_odd = ''m.room.member'' \<and> StateKey ex_self_odd = ex_bot
   \<and> (\<forall>m. Content ex_self_odd ''membership'' \<noteq> Some (IString m))
   \<and> (scanTimeline ex_bot ex_room ([ex_self_join] @ ex_self_odd # []) (Suc (length [ex_self_join])) ex_left_resp
         = scanTimeline ex_bot ex_room ([ex_self_join] @ ex_self_odd # []) (length [ex_self_join]) ex_left_resp
       \<and> scanTimeline ex_bot ex_room ([ex_self_join] @ ex_self_odd # [])
           (length ([ex_self_join] @ ex_self_odd # [])) ex_left_resp
         = scanTimeline ex_bot ex_room ([ex_self_join] @ []) (length ([ex_self_join] @ [])) ex_left_resp)
   \<and> scanTimeline ex_bot ex_room ([ex_self_join] @ []) (length ([ex_self_join] @ [])) ex_left_resp
       = \<lparr>Join = [], Invite = []\<rparr>"
proof -
  have h1: "Type ex_self_odd = ''m.room.member''" by (simp add: ex_self_odd_def)
  have h2: "StateKey ex_self_odd = ex_bot" by (simp add: ex_self_odd_def ex_bot_def)
  have h3: "\<forall>m. Content ex_self_odd ''membership'' \<noteq> Some (IString m)"
    by (simp add: ex_self_odd_def)
  have h4: "scanTimeline ex_bot ex_room ([ex_self_join] @ []) (length ([ex_self_join] @ [])) ex_left_resp
              = \<lparr>Join = [], Invite = []\<rparr>"
    by (simp add: ex_defs deleteRoom_def)
  from h1 h2 h3
    malformed_membership_skipped [OF h1 h2 h3, of ex_room "[ex_self_join]" "[]" ex_left_resp] h4
  show ?thesis by blast
qed

text \<open>
  C8. The response is the caller's object, and \<^verbatim>\<open>ProcessResponse\<close> hands it back
  changed: when the cursor is not empty and the timeline of a joined room holds a
  ``join'' of the account, the response after the call, however the call ends, is the
  one before the call without the suppressed rooms, and that room is in neither its
  joined nor its invited rooms.
\<close>

theorem suppressed_room_deleted_from_response:
  assumes "since \<noteq> ''''"
    and "(roomID, roomData) \<in> set (Join res)"
    and "hasSelfJoin (UserID s) roomData"
    and "ProcessResponse s (Some res) since w = (out, s', res', w')"
  shows "res' = Some (dropRooms (suppressedRooms (UserID s) res) res)
         \<and> (\<exists>r. res' = Some r \<and> roomID \<notin> fst ` set (Join r) \<and> roomID \<notin> fst ` set (Invite r))"
proof -
  have "res' = Some (dropRooms (suppressedRooms (UserID s) res) res)"
    using ProcessResponse_response [OF assms(1), of s res w] assms(4) by simp
  moreover have "roomID \<in> set (suppressedRooms (UserID s) res)"
    using assms(2,3) by (rule in_suppressedRooms)
  ultimately show ?thesis by (simp add: keys_dropRooms)
qed

text \<open>The room that was joined again is gone from both maps of the response.\<close>

theorem suppressed_room_deleted_from_response_witness:
  "''s1'' \<noteq> '''' \<and> (ex_room, ex_rejoined) \<in> set (Join ex_rejoin_resp)
   \<and> hasSelfJoin (UserID ex_syncer) ex_rejoined
   \<and> ProcessResponse ex_syncer (Some ex_rejoin_resp) ''s1'' ()
       = (Return None, ex_syncer, Some \<lparr>Join = [], Invite = []\<rparr>, ())
   \<and> dropRooms (suppressedRooms (UserID ex_syncer) ex_rejoin_resp) ex_rejoin_resp
       = \<lparr>Join = [], Invite = []\<rparr>"
proof -
  have h1: "''s1'' \<noteq> ''''" by simp
  have h2: "(ex_room, ex_rejoined) \<in> set (Join ex_rejoin_resp)"
    by (simp add: ex_rejoin_resp_def)
  have h3: "hasSelfJoin (UserID ex_syncer) ex_rejoined"
    by (simp add: ex_defs hasSelfJoin_def isSelfJoin_def)
  have h4: "ProcessResponse ex_syncer (Some ex_rejoin_resp) ''s1'' ()
              = (Return None, ex_syncer, Some \<lparr>Join = [], Invite = []\<rparr>, ())"
    by (simp add: ex_defs ProcessResponse_def shouldProcessResponse_def deleteRoom_def
                  processRooms_def)
  from suppressed_room_deleted_from_response [OF h1 h2 h3 h4] h1 h2 h3 h4 show ?thesis by simp
qed

section \<open>Dispatch and merge\<close>

text \<open>
  C4. Listeners that record what they are called with are registered, by a series of
  \<^verbatim>\<open>OnEventType\<close> calls, on a syncer that has a table of rooms and no listener yet. A
  response processed with a non-empty cursor then returns no error, and the record is
  extended by exactly this: for each room left by the replay filter, its state events in
  list order and then its timeline events in list order, each stamped with the room id,
  the invited rooms' state events after all joined rooms; and for each event the
  listeners of its type in the order they were registered.
\<close>

theorem dispatch_order_observed:
  assumes "since \<noteq> ''''" and "Rooms s0 \<noteq> None" and "listeners s0 = Map.empty"
  shows "\<exists>s'. ProcessResponse (subscribeAll (observers regs) s0) (Some res) since log =
           (Return None, s', Some (dropRooms (suppressedRooms (UserID s0) res) res),
            log @ observed regs (dispatchOrder (dropRooms (suppressedRooms (UserID s0) res) res)))"
proof -
  let ?s = "subscribeAll (observers regs) s0"
  obtain out s' res' w' where pr: "ProcessResponse ?s (Some res) since log = (out, s', res', w')"
    by (cases "ProcessResponse ?s (Some res) since log")
  have r: "Rooms ?s \<noteq> None" using assms(2) by simp
  from ProcessResponse_dispatch [OF assms(1) r pr] show ?thesis
    unfolding pr by (simp add: dispatchAll_observers [OF assms(3)])
qed

text \<open>
  Two listeners for the room name, \<open>first\<close> registered before \<open>second\<close>, and \<open>first\<close>
  for messages too; a room with two state events and two timeline events.
\<close>

theorem dispatch_order_observed_witness:
  "''s1'' \<noteq> '''' \<and> Rooms (NewDefaultSyncer ex_bot :: (string \<times> Event) list DefaultSyncer) \<noteq> None
   \<and> listeners (NewDefaultSyncer ex_bot :: (string \<times> Event) list DefaultSyncer) = Map.empty
   \<and> fst (ProcessResponse (subscribeAll (observers ex_regs) (NewDefaultSyncer ex_bot))
             (Some ex_active_resp) ''s1'' []) = Return None
   \<and> snd (snd (snd (ProcessResponse (subscribeAll (observers ex_regs) (NewDefaultSyncer ex_bot))
             (Some ex_active_resp) ''s1'' [])))
       = [(''first'', ex_name\<lparr>RoomID := ex_room\<rparr>), (''second'', ex_name\<lparr>RoomID := ex_room\<rparr>),
          (''first'', ex_renamed\<lparr>RoomID := ex_room\<rparr>), (''second'', ex_renamed\<lparr>RoomID := ex_room\<rparr>),
          (''first'', ex_message\<lparr>RoomID := ex_room\<rparr>),
          (''first'', ex_name\<lparr>RoomID := ex_room\<rparr>), (''second'', ex_name\<lparr>RoomID := ex_room\<rparr>)]"
proof -
  let ?s0 = "NewDefaultSyncer ex_bot :: (string \<times> Event) list DefaultSyncer"
  have h1: "''s1'' \<noteq> ''''" by simp
  have h2: "Rooms ?s0 \<noteq> None" by (simp add: NewDefaultSyncer_def)
  have h3: "listeners ?s0 = Map.empty" by (simp add: NewDefaultSyncer_def)
  have r: "dropRooms (suppressedRooms (UserID ?s0) ex_active_resp) ex_active_resp = ex_active_resp"
    by (simp add: ex_defs suppressedRooms_def dropRooms_def hasSelfJoin_def isSelfJoin_def)
  have d: "dispatchOrder ex_active_resp =
             [ex_name\<lparr>RoomID := ex_room\<rparr>, ex_renamed\<lparr>RoomID := ex_room\<rparr>,
              ex_message\<lparr>RoomID := ex_room\<rparr>, ex_name\<lparr>RoomID := ex_room\<rparr>]"
    by (simp add: dispatchOrder_def joinedEvents_def ex_active_resp_def ex_active_def stamp_def)
  have t: "Type (ex_name\<lparr>RoomID := ex_room\<rparr>) = ''m.room.name''"
    "Type (ex_renamed\<lparr>RoomID := ex_room\<rparr>) = ''m.room.name''"
    "Type (ex_message\<lparr>RoomID := ex_room\<rparr>) = ''m.room.message''"
    by (simp_all add: ex_name_def ex_renamed_def ex_message_def)
  have ob: "observed ex_regs (dispatchOrder ex_active_resp) =
         [(''first'', ex_name\<lparr>RoomID := ex_room\<rparr>), (''second'', ex_name\<lparr>RoomID := ex_room\<rparr>),
          (''first'', ex_renamed\<lparr>RoomID := ex_room\<rparr>), (''second'', ex_renamed\<lparr>RoomID := ex_room\<rparr>),
          (''first'', ex_message\<lparr>RoomID := ex_room\<rparr>),
          (''first'', ex_name\<lparr>RoomID := ex_room\<rparr>), (''second'', ex_name\<lparr>RoomID := ex_room\<rparr>)]"
    unfolding d by (simp add: observed_def ex_regs_def t)
  from dispatch_order_observed [OF h1 h2 h3, of ex_regs ex_active_resp "[]"] obtain s' where
    "ProcessResponse (subscribeAll (observers ex_regs) ?s0) (Some ex_active_resp) ''s1'' [] =
       (Return None, s', Some ex_active_resp, observed ex_regs (dispatchOrder ex_active_resp))"
    unfolding r by auto
  then show ?thesis using h1 h2 h3 ob by simp
qed

text \<open>
  C5. State merging is to be last-write-wins per pair of event type and state key: of
  two state events of one room with the same pair, only the later one is to remain in
  \<open>Room.State\<close>, and timeline events are never merged. The code does not do this.
  Lines 65 and 77 hand \<^verbatim>\<open>UpdateState\<close> the address of the loop's one variable, so
  every pair that one loop writes leads to the event the variable holds last. For the
  room whose name is set twice and whose topic is set after that, the call returns no
  error and last-write-wins asks for the second name under the name's pair; what the
  room's state has there is the topic event. Where the later of the two events is the
  last state event of the list, as in the room with new activity, it does remain, and
  the timeline event with the same pair is not merged.
\<close>

theorem state_pair_leads_to_last_event_of_loop:
  "fst (ProcessResponse ex_syncer (Some ex_named_resp) ''s1'' ()) = Return None
   \<and> lastWrite (''m.room.name'', '''') (mergedEvents ex_room ex_named_resp)
       = Some (ex_renamed\<lparr>RoomID := ex_room\<rparr>)
   \<and> roomState (fst (snd (ProcessResponse ex_syncer (Some ex_named_resp) ''s1'' ())))
        ex_room (''m.room.name'', '''') = Some (ex_topic\<lparr>RoomID := ex_room\<rparr>)
   \<and> roomState (fst (snd (ProcessResponse ex_syncer (Some ex_named_resp) ''s1'' ())))
        ex_room (''m.room.topic'', '''') = Some (ex_topic\<lparr>RoomID := ex_room\<rparr>)
   \<and> fst (ProcessResponse ex_syncer (Some ex_active_resp) ''s1'' ()) = Return None
   \<and> roomState (fst (snd (ProcessResponse ex_syncer (Some ex_active_resp) ''s1'' ())))
        ex_room (''m.room.name'', '''') = Some (ex_renamed\<lparr>RoomID := ex_room\<rparr>)"
proof -
  note eval = ex_defs ex_topic_def ex_named_def ex_named_resp_def ProcessResponse_def
    shouldProcessResponse_def processRooms_def getOrCreateRoom_def lookupRoom_def storeRoom_def
    stateEventsLoop_def UpdateState_def NewRoom_def notifyListeners_def roomState_def Let_def
  have "fst (ProcessResponse ex_syncer (Some ex_named_resp) ''s1'' ()) = Return None"
    by (simp add: eval)
  moreover have "lastWrite (''m.room.name'', '''') (mergedEvents ex_room ex_named_resp)
       = Some (ex_renamed\<lparr>RoomID := ex_room\<rparr>)"
    by (simp add: lastWrite_def mergedEvents_def joinedStateOf_def invitedStateOf_def stamp_def
                  ex_named_resp_def ex_named_def ex_name_def ex_renamed_def ex_topic_def)
  moreover have "roomState (fst (snd (ProcessResponse ex_syncer (Some ex_named_resp) ''s1'' ())))
        ex_room (''m.room.name'', '''') = Some (ex_topic\<lparr>RoomID := ex_room\<rparr>)"
    by (simp add: eval)
  moreover have "roomState (fst (snd (ProcessResponse ex_syncer (Some ex_named_resp) ''s1'' ())))
        ex_room (''m.room.topic'', '''') = Some (ex_topic\<lparr>RoomID := ex_room\<rparr>)"
    by (simp add: eval)
  moreover have "fst (ProcessResponse ex_syncer (Some ex_active_resp) ''s1'' ()) = Return None"
    by (simp add: eval)
  moreover have "roomState (fst (snd (ProcessResponse ex_syncer (Some ex_active_resp) ''s1'' ())))
        ex_room (''m.room.name'', '''') = Some (ex_renamed\<lparr>RoomID := ex_room\<rparr>)"
    by (simp add: eval)
  ultimately show ?thesis by blast
qed

section \<open>Faults\<close>




text \<open>
  C9. \<^verbatim>\<open>shouldProcessResponse\<close> runs before the \<^verbatim>\<open>defer\<close> that installs the recovery.
  With a non-empty cursor and a nil response it panics on reading the response, and
  whatever panic it raises leaves \<^verbatim>\<open>ProcessResponse\<close>: the call does not return an
  error, and the syncer and the world are untouched.
\<close>

theorem filter_panic_escapes:
  assumes "since \<noteq> ''''"
  shows "shouldProcessResponse s None since = Inl NilPointerDereference
         \<and> ProcessResponse s None since w = (Panic NilPointerDereference, s, None, w)
         \<and> (\<forall>res p. shouldProcessResponse s res since = Inl p
                \<longrightarrow> ProcessResponse s res since w = (Panic p, s, res, w))"
  using assms by (simp add: ProcessResponse_def shouldProcessResponse_def)

text \<open>The nil response with cursor \<open>s1\<close>.\<close>

theorem filter_panic_escapes_witness:
  "''s1'' \<noteq> ''''
   \<and> shouldProcessResponse ex_syncer None ''s1'' = Inl NilPointerDereference
   \<and> ProcessResponse ex_syncer None ''s1'' () = (Panic NilPointerDereference, ex_syncer, None, ())"
proof -
  have h: "''s1'' \<noteq> ''''" by simp
  from filter_panic_escapes [OF h, of ex_syncer "()"] h show ?thesis by blast
qed

section \<open>The failure policy\<close>

text \<open>
  C7. \<^verbatim>\<open>OnFailedSync\<close> answers every response and every error with a wait of ten
  seconds, that is \<open>10 * 10\<^sup>9\<close> nanoseconds, and with no error of its own: it never asks
  to stop.
\<close>

theorem OnFailedSync_ten_seconds:
  "OnFailedSync s res err = (10 * Second, None)
   \<and> sint (fst (OnFailedSync s res err)) = 10 * 1000000000
   \<and> snd (OnFailedSync s res err) = None"
  by (simp add: OnFailedSync_def Second_def Millisecond_def Microsecond_def Nanosecond_def)

end
